theory Spec2Isabelle
  imports Complex_Main "HOL-Library.Multiset"
begin

section \<open>Data model\<close>

text \<open>
  The tables of \<^verbatim>\<open>app/models\<close>. A \<^verbatim>\<open>datetime\<close> is a point on an integer time
  line, a Python \<^verbatim>\<open>int\<close> is an \<open>int\<close>, and a \<^verbatim>\<open>str\<close> is a \<open>string\<close> in which
  every \<open>char\<close> stands for one character of the Python string.
\<close>

datatype KeyStatus = ACTIVE | REVOKED | EXPIRED

type_synonym datetime = int

text \<open>
  A Python \<^verbatim>\<open>float\<close>. A finite one is \<open>Finite m e\<close>, the number \<open>m * 2 ^ e\<close> (every
  double is of this form; the bounds on \<open>m\<close> and \<open>e\<close> are left open); the others are the
  two infinities and not-a-number. The literal \<^verbatim>\<open>0.0\<close> is \<open>Finite 0 0\<close>.
  \<open>float_value x r\<close> says that \<open>x\<close> is finite and is the real number \<open>r\<close>. Float
  arithmetic rounds: the built-in \<^verbatim>\<open>sum\<close> and the division of a float by an integer
  are parameters \<open>fsum\<close> and \<open>fdiv\<close> of the functions that use them, and nothing is
  assumed of them.
\<close>

datatype pyfloat = Finite int int | Infinity bool | NaN


text \<open>
  Modelled from the spec: \<^verbatim>\<open>TimestampModel\<close> (\<^verbatim>\<open>app/models/base.py\<close>, which is not part
  of the source tree) supplies the creation time \<open>created_at\<close> that the service and the
  endpoints read; it is set when the row is inserted.
\<close>

record APIKey =
  id_pk :: int
  key_prefix :: string
  key_hash :: string
  name :: string
  status :: KeyStatus
  expires_at :: "datetime option"
  last_used_at :: "datetime option"
  revoked_at :: "datetime option"
  user_id :: int
  created_at :: datetime

record APIKeyUsage =
  id_pk :: int
  endpoint :: string
  method' :: string
  status_code :: int
  response_time :: pyfloat
  ip_address :: string
  user_agent :: "string option"
  api_key_id :: int
  created_at :: datetime

text \<open>
  The response schemas of \<^verbatim>\<open>app/schemas/api_key.py\<close>. A field that several records
  have is written with the record's name, as in \<open>APIKeyUsage.endpoint\<close>.
\<close>

record APIKeyUsageEntry =
  endpoint :: string
  method' :: string
  status_code :: int
  response_time :: pyfloat
  ip_address :: string
  user_agent :: "string option"
  created_at :: datetime


text \<open>
  The database behind the session: each table is the list of its rows. The position of
  a row in the list means nothing to a query: a query that returns several rows, having
  no \<^verbatim>\<open>ORDER BY\<close>, returns them in an order that the store chooses, which is a
  parameter \<open>ord\<close> of the function that runs the query.
\<close>

record db =
  api_keys :: "APIKey list"
  api_key_usage :: "APIKeyUsage list"

datatype error = MultipleResultsFound | ValidationError | ZeroDivisionError

section \<open>The session\<close>

text \<open>
  \<^verbatim>\<open>Result.scalar_one_or_none()\<close>: no row gives \<^verbatim>\<open>None\<close>, one row gives it, more
  than one row raises \<^verbatim>\<open>MultipleResultsFound\<close>.
\<close>

fun scalar_one_or_none :: "'a list \<Rightarrow> error + 'a option" where
  "scalar_one_or_none [] = Inr None"
| "scalar_one_or_none [x] = Inr (Some x)"
| "scalar_one_or_none (x # y # zs) = Inl MultipleResultsFound"

text \<open>
  Modelled from the spec: the identifier is assigned by the store on insert (the primary
  key of a new row is one more than the greatest identifier in the table).
\<close>

definition next_id :: "int list \<Rightarrow> int" where
  "next_id ids = fold max ids 0 + 1"

text \<open>\<^verbatim>\<open>session.add(db_key); session.commit(); session.refresh(db_key)\<close> of a new row.\<close>

definition insert_api_key :: "APIKey \<Rightarrow> db \<Rightarrow> APIKey \<times> db" where
  "insert_api_key k d =
     (let k' = k\<lparr>APIKey.id_pk := next_id (map APIKey.id_pk (api_keys d))\<rparr>
      in (k', d\<lparr>api_keys := api_keys d @ [k']\<rparr>))"

text \<open>\<^verbatim>\<open>session.commit()\<close> of a modified row: the row with its primary key is rewritten.\<close>

definition update_api_key :: "APIKey \<Rightarrow> db \<Rightarrow> db" where
  "update_api_key k d =
     d\<lparr>api_keys := map (\<lambda>r. if APIKey.id_pk r = APIKey.id_pk k then k else r) (api_keys d)\<rparr>"

section \<open>\<^verbatim>\<open>app/core/security.py\<close>\<close>

text \<open>
  \<^verbatim>\<open>hashlib.sha256(s.encode()).hexdigest()\<close> is a parameter \<open>H\<close> of the model, and the
  token drawn by \<^verbatim>\<open>secrets.token_urlsafe(32)\<close> is an argument \<open>api_key\<close> of the function
  that draws it; so is the clock reading \<open>now\<close> of \<^verbatim>\<open>datetime.utcnow()\<close>.
\<close>

definition get_api_key_hash :: "(string \<Rightarrow> string) \<Rightarrow> string \<Rightarrow> string" where
  "get_api_key_hash H api_key = H api_key"

definition verify_api_key :: "(string \<Rightarrow> string) \<Rightarrow> string \<Rightarrow> string \<Rightarrow> bool" where
  "verify_api_key H api_key stored_hash \<longleftrightarrow> get_api_key_hash H api_key = stored_hash"

section \<open>\<^verbatim>\<open>APIKeyService\<close>\<close>

definition create_api_key ::
  "(string \<Rightarrow> string) \<Rightarrow> string \<Rightarrow> datetime \<Rightarrow> int \<Rightarrow> string \<Rightarrow> db \<Rightarrow> (APIKey \<times> string) \<times> db" where
  "create_api_key H api_key now uid nm d =
     (let kh = get_api_key_hash H api_key;
          kp = take 8 api_key;
          (db_key, d') = insert_api_key
             \<lparr>APIKey.id_pk = 0, key_prefix = kp, key_hash = kh, name = nm, status = ACTIVE,
              expires_at = None, last_used_at = None, revoked_at = None,
              user_id = uid, APIKey.created_at = now\<rparr> d
      in ((db_key, api_key), d'))"

definition get_user_api_keys ::
  "(APIKey list \<Rightarrow> APIKey list) \<Rightarrow> int \<Rightarrow> db \<Rightarrow> APIKey list \<times> db" where
  "get_user_api_keys ord uid d =
     (ord (filter (\<lambda>k. user_id k = uid \<and> revoked_at k = None) (api_keys d)), d)"

definition revoke_api_key :: "datetime \<Rightarrow> int \<Rightarrow> int \<Rightarrow> db \<Rightarrow> (error + APIKey option) \<times> db" where
  "revoke_api_key now kid uid d =
     (case scalar_one_or_none
             (filter (\<lambda>k. APIKey.id_pk k = kid \<and> user_id k = uid \<and> revoked_at k = None) (api_keys d)) of
        Inl e \<Rightarrow> (Inl e, d)
      | Inr None \<Rightarrow> (Inr None, d)
      | Inr (Some k) \<Rightarrow>
          (let k' = k\<lparr>status := REVOKED, revoked_at := Some now\<rparr>
           in (Inr (Some k'), update_api_key k' d)))"

definition verify_and_update_key ::
  "(string \<Rightarrow> string) \<Rightarrow> datetime \<Rightarrow> string \<Rightarrow> db \<Rightarrow> (error + APIKey option) \<times> db" where
  "verify_and_update_key H now api_key d =
     (let kp = take 8 api_key in
      case scalar_one_or_none
             (filter (\<lambda>k. key_prefix k = kp \<and> status k = ACTIVE) (api_keys d)) of
        Inl e \<Rightarrow> (Inl e, d)
      | Inr None \<Rightarrow> (Inr None, d)
      | Inr (Some db_key) \<Rightarrow>
          (if verify_api_key H api_key (key_hash db_key)
           then (let k' = db_key\<lparr>last_used_at := Some now\<rparr>
                 in (Inr (Some k'), update_api_key k' d))
           else (Inr None, d)))"

definition log_api_key_usage ::
  "datetime \<Rightarrow> int \<Rightarrow> string \<Rightarrow> string \<Rightarrow> int \<Rightarrow> pyfloat \<Rightarrow> string \<Rightarrow> string option \<Rightarrow> db \<Rightarrow> db" where
  "log_api_key_usage now kid ep m sc rt ip ua d =
     d\<lparr>api_key_usage := api_key_usage d @
        [\<lparr>APIKeyUsage.id_pk = next_id (map APIKeyUsage.id_pk (api_key_usage d)),
          APIKeyUsage.endpoint = ep, APIKeyUsage.method' = m, APIKeyUsage.status_code = sc,
          APIKeyUsage.response_time = rt, APIKeyUsage.ip_address = ip,
          APIKeyUsage.user_agent = ua, api_key_id = kid, APIKeyUsage.created_at = now\<rparr>]\<rparr>"







section \<open>The endpoint that issues a key\<close>



section \<open>Databases that the service maintains\<close>

text \<open>
  The primary key is unique, and a row is active exactly when it has no revocation time:
  \<^verbatim>\<open>create_api_key\<close> writes \<^verbatim>\<open>ACTIVE\<close> with no \<^verbatim>\<open>revoked_at\<close>,
  \<^verbatim>\<open>revoke_api_key\<close> writes \<^verbatim>\<open>REVOKED\<close> together with \<^verbatim>\<open>revoked_at\<close>, and nothing
  else writes either column.
\<close>

definition wf_db :: "db \<Rightarrow> bool" where
  "wf_db d \<longleftrightarrow>
     distinct (map APIKey.id_pk (api_keys d)) \<and>
     list_all (\<lambda>k. (status k = ACTIVE) = (revoked_at k = None)) (api_keys d)"

definition empty_db :: db where
  "empty_db = \<lparr>api_keys = [], api_key_usage = []\<rparr>"

text \<open>A call of a method of the service, with what it draws from its environment.\<close>

datatype request =
    CreateKey string datetime int string
  | ListKeys int
  | RevokeKey datetime int int
  | VerifyKey datetime string
  | UsageStats int int
  | LogUsage datetime int string string int pyfloat string "string option"

fun step :: "(string \<Rightarrow> string) \<Rightarrow> request \<Rightarrow> db \<Rightarrow> db" where
  "step H (CreateKey api_key now uid nm) d = snd (create_api_key H api_key now uid nm d)"
| "step H (ListKeys uid) d = snd (get_user_api_keys (\<lambda>rows. rows) uid d)"
| "step H (RevokeKey now kid uid) d = snd (revoke_api_key now kid uid d)"
| "step H (VerifyKey now api_key) d = snd (verify_and_update_key H now api_key d)"
| "step H (UsageStats kid uid) d = d"
| "step H (LogUsage now kid ep m sc rt ip ua) d = log_api_key_usage now kid ep m sc rt ip ua d"

definition run :: "(string \<Rightarrow> string) \<Rightarrow> request list \<Rightarrow> db \<Rightarrow> db" where
  "run H rs d = fold (step H) rs d"

section \<open>A worked example\<close>

text \<open>
  The examples below need a digest and some raw keys. \<open>digest64\<close> stands in for the
  hex digest (64 characters, like that of SHA-256); \<open>key_a\<close>, \<open>key_b\<close> and \<open>key_d\<close> are
  raw keys of 43 characters with the same first 8 characters, \<open>key_c\<close> has another prefix.
\<close>

definition digest64 :: "string \<Rightarrow> string" where
  "digest64 s = take 64 (s @ replicate 64 (CHR ''0''))"

definition key_a :: string where "key_a = ''Zq3vK8pLmN0aBcDeFgHiJkLmNoPqRsTuVwXyZ01234A''"
definition key_b :: string where "key_b = ''Zq3vK8pLx9YwVuTsRqPoNmLkJiHgFeDcBa98765432Q''"
definition key_c :: string where "key_c = ''h7Gt2RfDe4Sw1QaZxCvBnMkLoIuYtReWq019283746c''"
definition key_d :: string where "key_d = ''Zq3vK8pLT4bN9cR2wE7yU1iO6pA3sD8fG5hJ0kLzXcE''"

definition db_ac :: db where
  "db_ac = run digest64 [CreateKey key_a 5 42 ''ci-bot'', CreateKey key_c 6 7 ''laptop''] empty_db"

text \<open>Two keys of one owner, issued at the times 5 and 6.\<close>

definition db_two :: db where
  "db_two = run digest64 [CreateKey key_a 5 42 ''ci-bot'', CreateKey key_c 6 42 ''laptop''] empty_db"



text \<open>Three active keys whose raw keys have the same first 8 characters.\<close>

definition db_shared :: "(string \<Rightarrow> string) \<Rightarrow> db" where
  "db_shared H = run H
     [CreateKey key_a 5 42 ''ci-bot'', CreateKey key_b 6 42 ''deploy'',
      CreateKey key_d 7 7 ''laptop''] empty_db"

section \<open>Facts about the session\<close>

lemma scalar_one_or_none_Some: "scalar_one_or_none xs = Inr (Some x) \<longleftrightarrow> xs = [x]"
  by (cases xs rule: scalar_one_or_none.cases) auto

lemma scalar_one_or_none_None: "scalar_one_or_none xs = Inr None \<longleftrightarrow> xs = []"
  by (cases xs rule: scalar_one_or_none.cases) auto

lemma scalar_one_or_none_Inl: "scalar_one_or_none xs = Inl e \<longleftrightarrow> e = MultipleResultsFound \<and> 2 \<le> length xs"
  by (cases xs rule: scalar_one_or_none.cases) auto

lemma fold_max_ge: "(a::int) \<le> fold max ids a"
  by (induction ids arbitrary: a) (auto intro: order_trans [OF max.cobounded2])

lemma fold_max_mem: "x \<in> set ids \<Longrightarrow> (x::int) \<le> fold max ids a"
proof (induction ids arbitrary: a)
  case Nil
  then show ?case by simp
next
  case (Cons y ys)
  show ?case
  proof (cases "x = y")
    case True
    have "y \<le> max y a" by simp
    also have "\<dots> \<le> fold max ys (max y a)" by (rule fold_max_ge)
    finally show ?thesis using True by simp
  next
    case False
    with Cons show ?thesis by simp
  qed
qed

lemma next_id_fresh: "x \<in> set ids \<Longrightarrow> x < next_id ids"
  using fold_max_mem [of x ids 0] by (simp add: next_id_def)

lemma next_id_notin: "next_id ids \<notin> set ids"
  using next_id_fresh [of "next_id ids" ids] by auto

lemma filter_key_unique:
  "distinct (map f xs) \<Longrightarrow> x \<in> set xs \<Longrightarrow> filter (\<lambda>r. f r = f x) xs = [x]"
proof (induction xs)
  case Nil
  then show ?case by simp
next
  case (Cons y ys)
  show ?case
  proof (cases "x = y")
    case True
    with Cons.prems have "\<forall>r\<in>set ys. f r \<noteq> f x" by (auto simp: image_iff)
    then have "filter (\<lambda>r. f r = f x) ys = []" by (simp add: filter_empty_conv)
    with True show ?thesis by simp
  next
    case False
    with Cons.prems have "x \<in> set ys" "f y \<noteq> f x" by (auto simp: image_iff)
    with Cons show ?thesis by simp
  qed
qed

lemma api_keys_update:
  "api_keys (update_api_key k d) =
     map (\<lambda>r. if APIKey.id_pk r = APIKey.id_pk k then k else r) (api_keys d)"
  by (simp add: update_api_key_def)

lemma usage_update: "api_key_usage (update_api_key k d) = api_key_usage d"
  by (simp add: update_api_key_def)

lemma ids_update:
  "map APIKey.id_pk (api_keys (update_api_key k d)) = map APIKey.id_pk (api_keys d)"
  by (simp add: update_api_key_def comp_def cong: map_cong)

lemma map_update_unique:
  assumes "distinct (map f xs)" and "k \<in> set xs" and "f k' = f k"
  shows "map (\<lambda>r. if f r = f k' then k' else r) xs = map (\<lambda>r. if r = k then k' else r) xs"
proof (rule map_cong [OF refl])
  fix r assume "r \<in> set xs"
  with assms have "f r = f k \<longleftrightarrow> r = k"
    by (auto simp: distinct_map inj_on_def)
  with assms(3) show "(if f r = f k' then k' else r) = (if r = k then k' else r)" by simp
qed

lemma revoke_api_key_Some:
  assumes "revoke_api_key now kid uid d = (Inr (Some k'), d')"
  obtains k where "k \<in> set (api_keys d)" "APIKey.id_pk k = kid" "user_id k = uid"
    "revoked_at k = None" "k' = k\<lparr>status := REVOKED, revoked_at := Some now\<rparr>"
    "d' = update_api_key k' d"
proof -
  let ?q = "filter (\<lambda>k. APIKey.id_pk k = kid \<and> user_id k = uid \<and> revoked_at k = None) (api_keys d)"
  from assms obtain k where q: "scalar_one_or_none ?q = Inr (Some k)"
    and k': "k' = k\<lparr>status := REVOKED, revoked_at := Some now\<rparr>" "d' = update_api_key k' d"
    by (auto simp: revoke_api_key_def Let_def split: sum.splits option.splits)
  from q have "?q = [k]" by (simp add: scalar_one_or_none_Some)
  then have "k \<in> set ?q" by simp
  then have "k \<in> set (api_keys d)" "APIKey.id_pk k = kid" "user_id k = uid" "revoked_at k = None"
    by simp_all
  with k' that show thesis by blast
qed

lemma verify_and_update_key_Some:
  assumes "verify_and_update_key H now api_key d = (Inr (Some k'), d')"
  obtains k where "k \<in> set (api_keys d)" "key_prefix k = take 8 api_key" "status k = ACTIVE"
    "key_hash k = get_api_key_hash H api_key" "k' = k\<lparr>last_used_at := Some now\<rparr>"
    "d' = update_api_key k' d"
    "filter (\<lambda>k. key_prefix k = take 8 api_key \<and> status k = ACTIVE) (api_keys d) = [k]"
proof -
  let ?q = "filter (\<lambda>k. key_prefix k = take 8 api_key \<and> status k = ACTIVE) (api_keys d)"
  from assms obtain k where q: "scalar_one_or_none ?q = Inr (Some k)"
    and h: "verify_api_key H api_key (key_hash k)"
    and k': "k' = k\<lparr>last_used_at := Some now\<rparr>" "d' = update_api_key k' d"
    by (auto simp: verify_and_update_key_def Let_def split: sum.splits option.splits if_splits)
  from q have eq: "?q = [k]" by (simp add: scalar_one_or_none_Some)
  then have "k \<in> set ?q" by simp
  then have "k \<in> set (api_keys d)" "key_prefix k = take 8 api_key" "status k = ACTIVE"
    by simp_all
  moreover from h have "key_hash k = get_api_key_hash H api_key"
    by (simp add: verify_api_key_def)
  ultimately show thesis using k' eq that by blast
qed

lemma create_api_key_eq:
  "create_api_key H api_key now uid nm d =
     ((\<lparr>APIKey.id_pk = next_id (map APIKey.id_pk (api_keys d)), key_prefix = take 8 api_key,
        key_hash = H api_key, name = nm, status = ACTIVE, expires_at = None,
        last_used_at = None, revoked_at = None, user_id = uid, APIKey.created_at = now\<rparr>,
       api_key),
      d\<lparr>api_keys := api_keys d @
        [\<lparr>APIKey.id_pk = next_id (map APIKey.id_pk (api_keys d)), key_prefix = take 8 api_key,
          key_hash = H api_key, name = nm, status = ACTIVE, expires_at = None,
          last_used_at = None, revoked_at = None, user_id = uid, APIKey.created_at = now\<rparr>]\<rparr>)"
  by (simp add: create_api_key_def insert_api_key_def get_api_key_hash_def Let_def)

lemma prefix_a: "take 8 key_a = ''Zq3vK8pL''"
  by (simp add: key_a_def)

lemma prefix_c: "take 8 key_c = ''h7Gt2RfD''"
  by (simp add: key_c_def)

lemma digest64_length: "length (digest64 s) = 64"
  by (simp add: digest64_def)

lemma db_ac_eq: "db_ac =
  \<lparr>api_keys =
     [\<lparr>APIKey.id_pk = 1, key_prefix = ''Zq3vK8pL'', key_hash = digest64 key_a, name = ''ci-bot'',
       status = ACTIVE, expires_at = None, last_used_at = None, revoked_at = None,
       user_id = 42, APIKey.created_at = 5\<rparr>,
      \<lparr>APIKey.id_pk = 2, key_prefix = ''h7Gt2RfD'', key_hash = digest64 key_c, name = ''laptop'',
       status = ACTIVE, expires_at = None, last_used_at = None, revoked_at = None,
       user_id = 7, APIKey.created_at = 6\<rparr>],
   api_key_usage = []\<rparr>"
  by (simp add: db_ac_def run_def empty_db_def create_api_key_eq next_id_def prefix_a prefix_c)

lemma digest_a_c: "digest64 key_a \<noteq> digest64 key_c"
  by (simp add: digest64_def key_a_def key_c_def)

lemma filter_key_le1:
  assumes "distinct (map f xs)"
  shows "length (filter (\<lambda>r. f r = a \<and> P r) xs) \<le> 1"
proof (cases "\<exists>x\<in>set xs. f x = a")
  case True
  then obtain x where x: "x \<in> set xs" "f x = a" by blast
  have "filter (\<lambda>r. f r = a \<and> P r) xs = filter P (filter (\<lambda>r. f r = f x) xs)"
    using x(2) by (simp add: conj_commute)
  also have "\<dots> = filter P [x]"
    using filter_key_unique [OF assms x(1)] by simp
  finally show ?thesis by simp
next
  case False
  then have "filter (\<lambda>r. f r = a \<and> P r) xs = []"
    by (auto simp: filter_empty_conv)
  then show ?thesis by simp
qed

lemma scalar_one_or_none_le1:
  "length xs \<le> 1 \<Longrightarrow> scalar_one_or_none xs = (case xs of [] \<Rightarrow> Inr None | x # _ \<Rightarrow> Inr (Some x))"
  by (cases xs rule: scalar_one_or_none.cases) auto

lemma revoke_api_key_unchanged:
  "fst (revoke_api_key now kid uid d) = Inr None \<or> fst (revoke_api_key now kid uid d) = Inl e
     \<Longrightarrow> snd (revoke_api_key now kid uid d) = d"
  by (auto simp: revoke_api_key_def Let_def split: sum.splits option.splits)

lemma verify_and_update_key_unchanged:
  "fst (verify_and_update_key H now api_key d) = Inr None \<or>
   fst (verify_and_update_key H now api_key d) = Inl e
     \<Longrightarrow> snd (verify_and_update_key H now api_key d) = d"
  by (auto simp: verify_and_update_key_def Let_def split: sum.splits option.splits if_splits)

lemma wf_db_empty: "wf_db empty_db"
  by (simp add: wf_db_def empty_db_def)

lemma wf_db_create:
  assumes "wf_db d"
  shows "wf_db (snd (create_api_key H api_key now uid nm d))"
  using assms next_id_notin [of "map APIKey.id_pk (api_keys d)"]
  by (simp add: wf_db_def create_api_key_eq)

lemma wf_db_update:
  assumes "wf_db d" and "(status k = ACTIVE) = (revoked_at k = None)"
  shows "wf_db (update_api_key k d)"
proof -
  have "distinct (map APIKey.id_pk (api_keys (update_api_key k d)))"
    using assms(1) by (simp only: ids_update wf_db_def)
  moreover have "list_all (\<lambda>k. (status k = ACTIVE) = (revoked_at k = None))
      (api_keys (update_api_key k d))"
    using assms by (auto simp: wf_db_def api_keys_update list_all_iff)
  ultimately show ?thesis by (simp add: wf_db_def)
qed

lemma wf_db_row:
  "wf_db d \<Longrightarrow> k \<in> set (api_keys d) \<Longrightarrow> (status k = ACTIVE) = (revoked_at k = None)"
  by (simp add: wf_db_def list_all_iff)

lemma wf_db_revoke:
  assumes "wf_db d"
  shows "wf_db (snd (revoke_api_key now kid uid d))"
proof (cases "fst (revoke_api_key now kid uid d)")
  case (Inl e)
  then show ?thesis using assms revoke_api_key_unchanged [of now kid uid d e] by simp
next
  case (Inr r)
  show ?thesis
  proof (cases r)
    case None
    with Inr show ?thesis using assms revoke_api_key_unchanged [of now kid uid d] by simp
  next
    case (Some k')
    with Inr have "revoke_api_key now kid uid d = (Inr (Some k'), snd (revoke_api_key now kid uid d))"
      by (simp add: prod_eq_iff)
    then show ?thesis
      by (rule revoke_api_key_Some) (use assms in \<open>simp add: wf_db_update\<close>)
  qed
qed

lemma wf_db_verify:
  assumes "wf_db d"
  shows "wf_db (snd (verify_and_update_key H now api_key d))"
proof (cases "fst (verify_and_update_key H now api_key d)")
  case (Inl e)
  then show ?thesis using assms verify_and_update_key_unchanged [of H now api_key d e] by simp
next
  case (Inr r)
  show ?thesis
  proof (cases r)
    case None
    with Inr show ?thesis using assms verify_and_update_key_unchanged [of H now api_key d] by simp
  next
    case (Some k')
    with Inr have "verify_and_update_key H now api_key d =
        (Inr (Some k'), snd (verify_and_update_key H now api_key d))"
      by (simp add: prod_eq_iff)
    then show ?thesis
      by (rule verify_and_update_key_Some) (use assms wf_db_row in \<open>simp add: wf_db_update\<close>)
  qed
qed

lemma wf_db_log: "wf_db d \<Longrightarrow> wf_db (log_api_key_usage now kid ep m sc rt ip ua d)"
  by (simp add: wf_db_def log_api_key_usage_def)

lemma wf_db_step: "wf_db d \<Longrightarrow> wf_db (step H r d)"
  by (cases r) (simp_all add: wf_db_create wf_db_revoke wf_db_verify wf_db_log get_user_api_keys_def)

lemma wf_db_run: "wf_db d \<Longrightarrow> wf_db (run H rs d)"
  unfolding run_def by (induction rs arbitrary: d) (simp_all add: wf_db_step)

section \<open>Issuing a key: the bounds on the name\<close>



section \<open>Verification touches one column of one row\<close>

text \<open>
  Claim C10. When \<^verbatim>\<open>verify_and_update_key\<close> returns a key, the returned row is a row
  \<open>k\<close> of the table with \<open>last_used_at\<close> set to the clock reading and every other
  column as it was (identifier, hash, prefix, name, status, owner, expiry, creation and
  revocation time); the table afterwards is the table before with that one row replaced,
  every other row being unchanged, and the usage table is unchanged. The primary key is
  unique.
\<close>

theorem verify_and_update_key_frame:
  assumes "distinct (map APIKey.id_pk (api_keys d))"
    and "verify_and_update_key H now api_key d = (Inr (Some k'), d')"
  shows "\<exists>k. k \<in> set (api_keys d) \<and> k' = k\<lparr>last_used_at := Some now\<rparr> \<and>
           APIKey.id_pk k' = APIKey.id_pk k \<and> key_hash k' = key_hash k \<and>
           key_prefix k' = key_prefix k \<and> name k' = name k \<and> status k' = status k \<and>
           user_id k' = user_id k \<and> expires_at k' = expires_at k \<and>
           APIKey.created_at k' = APIKey.created_at k \<and> revoked_at k' = revoked_at k \<and>
           api_keys d' = map (\<lambda>r. if r = k then k' else r) (api_keys d) \<and>
           api_key_usage d' = api_key_usage d"
proof -
  from assms(2) obtain k where k: "k \<in> set (api_keys d)"
    "k' = k\<lparr>last_used_at := Some now\<rparr>" "d' = update_api_key k' d"
    by (rule verify_and_update_key_Some)
  have id: "APIKey.id_pk k' = APIKey.id_pk k" using k(2) by simp
  have "api_keys d' = map (\<lambda>r. if r = k then k' else r) (api_keys d)"
    unfolding k(3) api_keys_update
    by (rule map_update_unique [OF assms(1) k(1) id])
  moreover have "api_key_usage d' = api_key_usage d"
    unfolding k(3) by (rule usage_update)
  ultimately show ?thesis using k(1,2) by auto
qed

theorem verify_and_update_key_frame_witness:
  "\<exists>k. k \<in> set (api_keys db_ac) \<and>
     fst (verify_and_update_key digest64 9 key_a db_ac) = Inr (Some (k\<lparr>last_used_at := Some 9\<rparr>)) \<and>
     APIKey.id_pk k = 1 \<and>
     api_keys (snd (verify_and_update_key digest64 9 key_a db_ac)) =
       map (\<lambda>r. if r = k then k\<lparr>last_used_at := Some 9\<rparr> else r) (api_keys db_ac) \<and>
     api_key_usage (snd (verify_and_update_key digest64 9 key_a db_ac)) = api_key_usage db_ac"
proof -
  obtain k' d' where v: "verify_and_update_key digest64 9 key_a db_ac = (Inr (Some k'), d')"
    and id: "APIKey.id_pk k' = 1"
    by (simp add: db_ac_eq verify_and_update_key_def verify_api_key_def get_api_key_hash_def
        prefix_a Let_def)
  have d: "distinct (map APIKey.id_pk (api_keys db_ac))"
    by (simp add: db_ac_eq)
  from verify_and_update_key_frame [OF d v] id show ?thesis
    unfolding v by auto
qed

section \<open>Revocation\<close>

lemma distinct_key_eq:
  "distinct (map f xs) \<Longrightarrow> x \<in> set xs \<Longrightarrow> y \<in> set xs \<Longrightarrow> f x = f y \<Longrightarrow> x = y"
  by (auto simp: distinct_map inj_on_def)

lemma revoke_api_key_wf:
  assumes "wf_db d"
  shows "revoke_api_key now kid uid d =
     (case filter (\<lambda>k. APIKey.id_pk k = kid \<and> user_id k = uid \<and> revoked_at k = None) (api_keys d) of
        [] \<Rightarrow> (Inr None, d)
      | k # _ \<Rightarrow> (Inr (Some (k\<lparr>status := REVOKED, revoked_at := Some now\<rparr>)),
                  update_api_key (k\<lparr>status := REVOKED, revoked_at := Some now\<rparr>) d))"
proof -
  have "length (filter (\<lambda>k. APIKey.id_pk k = kid \<and> user_id k = uid \<and> revoked_at k = None) (api_keys d)) \<le> 1"
    using assms by (intro filter_key_le1) (simp add: wf_db_def)
  then show ?thesis
    by (simp add: revoke_api_key_def scalar_one_or_none_le1 Let_def split: list.splits)
qed

lemma revoked_rows_after_revoke:
  assumes "revoke_api_key now kid uid d = (Inr (Some k'), d')" and "r \<in> set (api_keys d')"
    and "APIKey.id_pk r = kid"
  shows "r = k'"
proof -
  from assms(1) obtain k where k: "APIKey.id_pk k = kid"
    "k' = k\<lparr>status := REVOKED, revoked_at := Some now\<rparr>" "d' = update_api_key k' d"
    by (rule revoke_api_key_Some)
  then have "APIKey.id_pk k' = kid" by simp
  with assms(2,3) show ?thesis
    unfolding k(3) api_keys_update by auto
qed

lemma wf_db_ac: "wf_db db_ac"
  unfolding db_ac_def by (rule wf_db_run [OF wf_db_empty])

text \<open>
  Claim C5. On a database that the service maintains, \<^verbatim>\<open>revoke_api_key\<close> returns no
  key (the endpoint's 404) exactly when no row has the identifier, or the row belongs to
  another owner, or the row is not active; it never raises; when it returns no key the
  database is unchanged; and after a revocation that succeeded, a second one for the same
  identifier and owner returns no key and leaves the database as the first one left it.
\<close>

theorem revoke_api_key_not_found:
  assumes "wf_db d"
  shows "(fst (revoke_api_key now kid uid d) = Inr None \<longleftrightarrow>
            (\<not> (\<exists>k\<in>set (api_keys d). APIKey.id_pk k = kid) \<or>
             (\<exists>k\<in>set (api_keys d). APIKey.id_pk k = kid \<and> user_id k \<noteq> uid) \<or>
             (\<exists>k\<in>set (api_keys d). APIKey.id_pk k = kid \<and> status k \<noteq> ACTIVE))) \<and>
         (\<forall>e. fst (revoke_api_key now kid uid d) \<noteq> Inl e) \<and>
         (fst (revoke_api_key now kid uid d) = Inr None \<longrightarrow>
            snd (revoke_api_key now kid uid d) = d) \<and>
         (\<forall>k'. fst (revoke_api_key now kid uid d) = Inr (Some k') \<longrightarrow>
            status k' = REVOKED \<and> revoked_at k' = Some now \<and>
            revoke_api_key now2 kid uid (snd (revoke_api_key now kid uid d)) =
              (Inr None, snd (revoke_api_key now kid uid d)))"
proof -
  let ?q = "filter (\<lambda>k. APIKey.id_pk k = kid \<and> user_id k = uid \<and> revoked_at k = None) (api_keys d)"
  let ?r = "revoke_api_key now kid uid d"
  note eq = revoke_api_key_wf [OF assms, of now kid uid]
  have dist: "distinct (map APIKey.id_pk (api_keys d))" using assms by (simp add: wf_db_def)
  have none: "fst ?r = Inr None \<longleftrightarrow> ?q = []"
    unfolding eq by (simp split: list.splits)
  have "?q = [] \<longleftrightarrow>
      (\<not> (\<exists>k\<in>set (api_keys d). APIKey.id_pk k = kid) \<or>
       (\<exists>k\<in>set (api_keys d). APIKey.id_pk k = kid \<and> user_id k \<noteq> uid) \<or>
       (\<exists>k\<in>set (api_keys d). APIKey.id_pk k = kid \<and> status k \<noteq> ACTIVE))"
    (is "_ \<longleftrightarrow> ?rhs")
  proof
    assume "?q = []"
    then have "\<forall>k\<in>set (api_keys d). APIKey.id_pk k = kid \<longrightarrow> user_id k \<noteq> uid \<or> revoked_at k \<noteq> None"
      by (auto simp: filter_empty_conv)
    then show ?rhs using wf_db_row [OF assms] by blast
  next
    assume rhs: ?rhs
    show "?q = []"
    proof (rule ccontr)
      assume "?q \<noteq> []"
      then obtain k where k: "k \<in> set (api_keys d)" "APIKey.id_pk k = kid" "user_id k = uid"
        "revoked_at k = None"
        by (auto simp: filter_empty_conv)
      then have act: "status k = ACTIVE" using wf_db_row [OF assms k(1)] by simp
      from rhs k(1,2) obtain k2 where k2: "k2 \<in> set (api_keys d)" "APIKey.id_pk k2 = kid"
        "user_id k2 \<noteq> uid \<or> status k2 \<noteq> ACTIVE"
        by blast
      have "k2 = k" using distinct_key_eq [OF dist k2(1) k(1)] k2(2) k(2) by simp
      with k2(3) k(3) act show False by simp
    qed
  qed
  with none have 1: "fst ?r = Inr None \<longleftrightarrow> ?rhs" by simp
  have 2: "\<forall>e. fst ?r \<noteq> Inl e"
    unfolding eq by (simp split: list.splits)
  have 3: "fst ?r = Inr None \<longrightarrow> snd ?r = d"
    using revoke_api_key_unchanged [of now kid uid d] by simp
  have 4: "status k' = REVOKED \<and> revoked_at k' = Some now \<and>
      revoke_api_key now2 kid uid (snd ?r) = (Inr None, snd ?r)"
    if "fst ?r = Inr (Some k')" for k'
  proof -
    from that have r: "?r = (Inr (Some k'), snd ?r)" by (simp add: prod_eq_iff)
    from r have k': "status k' = REVOKED" "revoked_at k' = Some now"
      by (rule revoke_api_key_Some, simp)+
    have wf': "wf_db (snd ?r)" by (rule wf_db_revoke [OF assms])
    have "filter (\<lambda>k. APIKey.id_pk k = kid \<and> user_id k = uid \<and> revoked_at k = None)
        (api_keys (snd ?r)) = []"
      using revoked_rows_after_revoke [OF r] k' by (auto simp: filter_empty_conv)
    then show ?thesis using k' by (simp add: revoke_api_key_wf [OF wf'])
  qed
  from 1 2 3 4 show ?thesis by blast
qed

theorem revoke_api_key_not_found_witness:
  "fst (revoke_api_key 9 99 42 db_ac) = Inr None \<and>
   snd (revoke_api_key 9 99 42 db_ac) = db_ac \<and>
   fst (revoke_api_key 9 1 7 db_ac) = Inr None \<and>
   (\<exists>k'. fst (revoke_api_key 9 1 42 db_ac) = Inr (Some k') \<and>
      status k' = REVOKED \<and> revoked_at k' = Some 9) \<and>
   revoke_api_key 10 1 42 (snd (revoke_api_key 9 1 42 db_ac)) =
     (Inr None, snd (revoke_api_key 9 1 42 db_ac))"
proof -
  note t1 = revoke_api_key_not_found [OF wf_db_ac, of 9 99 42 10]
  note t2 = revoke_api_key_not_found [OF wf_db_ac, of 9 1 7 10]
  note t3 = revoke_api_key_not_found [OF wf_db_ac, of 9 1 42 10]
  have a: "fst (revoke_api_key 9 99 42 db_ac) = Inr None \<and> snd (revoke_api_key 9 99 42 db_ac) = db_ac"
    using t1 by (simp add: db_ac_eq)
  have b: "fst (revoke_api_key 9 1 7 db_ac) = Inr None"
    using t2 by (simp add: db_ac_eq)
  have "fst (revoke_api_key 9 1 42 db_ac) \<noteq> Inr None"
    using t3 by (simp add: db_ac_eq)
  moreover from t3 have "\<forall>e. fst (revoke_api_key 9 1 42 db_ac) \<noteq> Inl e" by blast
  ultimately obtain k' where k': "fst (revoke_api_key 9 1 42 db_ac) = Inr (Some k')"
    by (cases "fst (revoke_api_key 9 1 42 db_ac)") auto
  with t3 have c: "status k' = REVOKED \<and> revoked_at k' = Some 9 \<and>
      revoke_api_key 10 1 42 (snd (revoke_api_key 9 1 42 db_ac)) =
        (Inr None, snd (revoke_api_key 9 1 42 db_ac))"
    by blast
  from a b c k' show ?thesis by blast
qed

section \<open>A revoked key stays revoked\<close>

lemma revoke_api_key_cases:
  "(\<exists>k'. fst (revoke_api_key now kid uid d) = Inr (Some k')) \<or>
   snd (revoke_api_key now kid uid d) = d"
  by (auto simp: revoke_api_key_def Let_def split: sum.splits option.splits)

lemma verify_and_update_key_cases:
  "(\<exists>k'. fst (verify_and_update_key H now api_key d) = Inr (Some k')) \<or>
   snd (verify_and_update_key H now api_key d) = d"
  by (auto simp: verify_and_update_key_def Let_def split: sum.splits option.splits)

lemma update_keeps_other_row:
  assumes "distinct (map APIKey.id_pk (api_keys d))" and "r \<in> set (api_keys d)"
    and "k \<in> set (api_keys d)" and "r \<noteq> k" and "APIKey.id_pk k' = APIKey.id_pk k"
  shows "r \<in> set (api_keys (update_api_key k' d))"
proof -
  have "APIKey.id_pk r \<noteq> APIKey.id_pk k"
    using distinct_key_eq [OF assms(1,2,3)] assms(4) by blast
  with assms(2,5) show ?thesis
    unfolding api_keys_update by (auto simp: image_iff intro!: bexI [of _ r])
qed

text \<open>A row that is not active is never written again.\<close>

lemma inactive_row_step:
  assumes "wf_db d" and "r \<in> set (api_keys d)" and "status r \<noteq> ACTIVE"
  shows "r \<in> set (api_keys (step H q d))"
proof (cases q)
  case (CreateKey api_key now uid nm)
  with assms(2) show ?thesis by (simp add: create_api_key_eq)
next
  case (ListKeys uid)
  with assms(2) show ?thesis by (simp add: get_user_api_keys_def)
next
  case (RevokeKey now kid uid)
  have dist: "distinct (map APIKey.id_pk (api_keys d))" using assms(1) by (simp add: wf_db_def)
  have rv: "revoked_at r \<noteq> None" using wf_db_row [OF assms(1,2)] assms(3) by simp
  show ?thesis
  proof (cases "\<exists>k'. fst (revoke_api_key now kid uid d) = Inr (Some k')")
    case True
    then obtain k' where "revoke_api_key now kid uid d = (Inr (Some k'), snd (revoke_api_key now kid uid d))"
      by (auto simp: prod_eq_iff)
    then obtain k where k: "k \<in> set (api_keys d)" "revoked_at k = None"
      "k' = k\<lparr>status := REVOKED, revoked_at := Some now\<rparr>"
      "snd (revoke_api_key now kid uid d) = update_api_key k' d"
      by (rule revoke_api_key_Some) simp
    from k(2) rv have "r \<noteq> k" by auto
    moreover from k(3) have "APIKey.id_pk k' = APIKey.id_pk k" by simp
    ultimately show ?thesis
      using update_keeps_other_row [OF dist assms(2) k(1)] k(4) RevokeKey by simp
  next
    case False
    then have "snd (revoke_api_key now kid uid d) = d"
      using revoke_api_key_cases [of now kid uid d] by blast
    with assms(2) RevokeKey show ?thesis by simp
  qed
next
  case (VerifyKey now api_key)
  have dist: "distinct (map APIKey.id_pk (api_keys d))" using assms(1) by (simp add: wf_db_def)
  show ?thesis
  proof (cases "\<exists>k'. fst (verify_and_update_key H now api_key d) = Inr (Some k')")
    case True
    then obtain k' where "verify_and_update_key H now api_key d =
        (Inr (Some k'), snd (verify_and_update_key H now api_key d))"
      by (auto simp: prod_eq_iff)
    then obtain k where k: "k \<in> set (api_keys d)" "status k = ACTIVE"
      "k' = k\<lparr>last_used_at := Some now\<rparr>"
      "snd (verify_and_update_key H now api_key d) = update_api_key k' d"
      by (rule verify_and_update_key_Some) simp
    from k(2) assms(3) have "r \<noteq> k" by auto
    moreover from k(3) have "APIKey.id_pk k' = APIKey.id_pk k" by simp
    ultimately show ?thesis
      using update_keeps_other_row [OF dist assms(2) k(1)] k(4) VerifyKey by simp
  next
    case False
    then have "snd (verify_and_update_key H now api_key d) = d"
      using verify_and_update_key_cases [of H now api_key d] by blast
    with assms(2) VerifyKey show ?thesis by simp
  qed
next
  case (UsageStats kid uid)
  with assms(2) show ?thesis by simp
next
  case (LogUsage now kid ep m sc rt ip ua)
  with assms(2) show ?thesis by (simp add: log_api_key_usage_def)
qed

lemma inactive_row_run:
  "wf_db d \<Longrightarrow> r \<in> set (api_keys d) \<Longrightarrow> status r \<noteq> ACTIVE \<Longrightarrow> r \<in> set (api_keys (run H rs d))"
  unfolding run_def
proof (induction rs arbitrary: d)
  case Nil
  then show ?case by simp
next
  case (Cons q rs)
  from Cons.prems have "wf_db (step H q d)" "r \<in> set (api_keys (step H q d))"
    by (simp_all add: wf_db_step inactive_row_step)
  with Cons.IH Cons.prems(3) show ?case by simp
qed

lemma prefix_b: "take 8 key_b = ''Zq3vK8pL''"
  by (simp add: key_b_def)

lemma prefix_d: "take 8 key_d = ''Zq3vK8pL''"
  by (simp add: key_d_def)

lemma digest_a_b: "digest64 key_a \<noteq> digest64 key_b"
  by (simp add: digest64_def key_a_def key_b_def)

text \<open>
  After \<^verbatim>\<open>revoke_api_key\<close> has succeeded for a key, the returned row is revoked and
  carries the revocation time, and after any further calls of the service that very row
  is still stored. A later \<^verbatim>\<open>verify_and_update_key\<close> with a raw key whose fingerprint no
  other stored row carries returns no key and changes nothing. Its result is \<^verbatim>\<open>None\<close>
  (the caller's 401) only where at most one active row has the prefix of the raw key;
  what happens otherwise is shown with the keys that share a prefix.
\<close>

lemma revoked_key_never_verifies:
  assumes "wf_db d"
    and "revoke_api_key now kid uid d = (Inr (Some k), d1)"
    and "d2 = run H rs d1"
    and "\<forall>r\<in>set (api_keys d2). key_hash r = get_api_key_hash H api_key \<longrightarrow> APIKey.id_pk r = kid"
  shows "APIKey.id_pk k = kid \<and> status k = REVOKED \<and> revoked_at k = Some now \<and>
         k \<in> set (api_keys d2) \<and>
         (\<forall>k'. fst (verify_and_update_key H t api_key d2) \<noteq> Inr (Some k')) \<and>
         snd (verify_and_update_key H t api_key d2) = d2 \<and>
         (length (filter (\<lambda>r. key_prefix r = take 8 api_key \<and> status r = ACTIVE) (api_keys d2)) \<le> 1
            \<longrightarrow> verify_and_update_key H t api_key d2 = (Inr None, d2))"
proof -
  let ?v = "verify_and_update_key H t api_key d2"
  from assms(2) obtain k0 where k0: "k0 \<in> set (api_keys d)" "APIKey.id_pk k0 = kid"
    "k = k0\<lparr>status := REVOKED, revoked_at := Some now\<rparr>" "d1 = update_api_key k d"
    by (rule revoke_api_key_Some)
  have k: "APIKey.id_pk k = kid" "status k = REVOKED" "revoked_at k = Some now"
    using k0(2,3) by simp_all
  have "k \<in> set (api_keys d1)"
    unfolding k0(4) api_keys_update using k0(1,2) k(1) by (auto simp: image_iff intro!: bexI [of _ k0])
  moreover have wf1: "wf_db d1"
    using wf_db_revoke [OF assms(1), of now kid uid] assms(2) by simp
  ultimately have mem: "k \<in> set (api_keys d2)"
    unfolding assms(3) using k(2) by (intro inactive_row_run) simp_all
  have wf2: "wf_db d2" unfolding assms(3) by (rule wf_db_run [OF wf1])
  then have dist: "distinct (map APIKey.id_pk (api_keys d2))" by (simp add: wf_db_def)
  have no: "fst ?v \<noteq> Inr (Some k')" for k'
  proof
    assume "fst ?v = Inr (Some k')"
    then have "?v = (Inr (Some k'), snd ?v)" by (simp add: prod_eq_iff)
    then obtain m where m: "m \<in> set (api_keys d2)" "status m = ACTIVE"
      "key_hash m = get_api_key_hash H api_key"
      by (rule verify_and_update_key_Some)
    with assms(4) have "APIKey.id_pk m = kid" by blast
    with k(1) have "m = k" using distinct_key_eq [OF dist m(1) mem] by simp
    with m(2) k(2) show False by simp
  qed
  have unchanged: "snd ?v = d2"
  proof (cases "fst ?v")
    case (Inl e)
    then show ?thesis using verify_and_update_key_unchanged [of H t api_key d2 e] by simp
  next
    case (Inr x)
    with no have "fst ?v = Inr None" by (cases x) auto
    then show ?thesis using verify_and_update_key_unchanged [of H t api_key d2] by simp
  qed
  have "fst ?v = Inr None"
    if "length (filter (\<lambda>r. key_prefix r = take 8 api_key \<and> status r = ACTIVE) (api_keys d2)) \<le> 1"
  proof (cases "fst ?v")
    case (Inl e)
    with that show ?thesis
      by (auto simp: verify_and_update_key_def Let_def scalar_one_or_none_le1
          split: list.splits if_splits)
  next
    case (Inr x)
    with no show ?thesis by (cases x) auto
  qed
  with unchanged have "length (filter (\<lambda>r. key_prefix r = take 8 api_key \<and> status r = ACTIVE) (api_keys d2)) \<le> 1
      \<longrightarrow> ?v = (Inr None, d2)"
    by (simp add: prod_eq_iff)
  with k mem no unchanged show ?thesis by blast
qed

lemma revoked_key_never_verifies_example:
  "(\<exists>k. fst (revoke_api_key 9 1 42 db_ac) = Inr (Some k) \<and>
        status k = REVOKED \<and> revoked_at k = Some 9 \<and>
        k \<in> set (api_keys (run digest64 [VerifyKey 10 key_c, CreateKey key_b 11 42 ''deploy'']
                              (snd (revoke_api_key 9 1 42 db_ac))))) \<and>
   verify_and_update_key digest64 12 key_a
       (run digest64 [VerifyKey 10 key_c, CreateKey key_b 11 42 ''deploy'']
          (snd (revoke_api_key 9 1 42 db_ac))) =
     (Inr None,
      run digest64 [VerifyKey 10 key_c, CreateKey key_b 11 42 ''deploy'']
        (snd (revoke_api_key 9 1 42 db_ac)))"
proof -
  let ?rs = "[VerifyKey 10 key_c, CreateKey key_b 11 42 ''deploy'']"
  obtain k d1 where r: "revoke_api_key 9 1 42 db_ac = (Inr (Some k), d1)"
    and d1: "api_keys d1 =
     [\<lparr>APIKey.id_pk = 1, key_prefix = ''Zq3vK8pL'', key_hash = digest64 key_a, name = ''ci-bot'',
       status = REVOKED, expires_at = None, last_used_at = None, revoked_at = Some 9,
       user_id = 42, APIKey.created_at = 5\<rparr>,
      \<lparr>APIKey.id_pk = 2, key_prefix = ''h7Gt2RfD'', key_hash = digest64 key_c, name = ''laptop'',
       status = ACTIVE, expires_at = None, last_used_at = None, revoked_at = None,
       user_id = 7, APIKey.created_at = 6\<rparr>]"
    by (simp add: revoke_api_key_def db_ac_eq update_api_key_def Let_def)
  have d2: "api_keys (run digest64 ?rs d1) =
     [\<lparr>APIKey.id_pk = 1, key_prefix = ''Zq3vK8pL'', key_hash = digest64 key_a, name = ''ci-bot'',
       status = REVOKED, expires_at = None, last_used_at = None, revoked_at = Some 9,
       user_id = 42, APIKey.created_at = 5\<rparr>,
      \<lparr>APIKey.id_pk = 2, key_prefix = ''h7Gt2RfD'', key_hash = digest64 key_c, name = ''laptop'',
       status = ACTIVE, expires_at = None, last_used_at = Some 10, revoked_at = None,
       user_id = 7, APIKey.created_at = 6\<rparr>,
      \<lparr>APIKey.id_pk = 3, key_prefix = ''Zq3vK8pL'', key_hash = digest64 key_b, name = ''deploy'',
       status = ACTIVE, expires_at = None, last_used_at = None, revoked_at = None,
       user_id = 42, APIKey.created_at = 11\<rparr>]"
    by (simp add: run_def verify_and_update_key_def verify_api_key_def get_api_key_hash_def
        update_api_key_def create_api_key_eq next_id_def prefix_b prefix_c d1 Let_def)
  have h: "\<forall>r\<in>set (api_keys (run digest64 ?rs d1)).
      key_hash r = get_api_key_hash digest64 key_a \<longrightarrow> APIKey.id_pk r = 1"
    using digest_a_b digest_a_c by (auto simp: d2 get_api_key_hash_def)
  have l: "length (filter (\<lambda>r. key_prefix r = take 8 key_a \<and> status r = ACTIVE)
      (api_keys (run digest64 ?rs d1))) \<le> 1"
    by (simp add: d2 prefix_a)
  from revoked_key_never_verifies [OF wf_db_ac r refl h, of 12] l r
  show ?thesis by simp
qed

section \<open>Issuing and verifying; keys that share a prefix\<close>

lemma verify_and_update_key_ambiguous:
  assumes "2 \<le> length (filter (\<lambda>k. key_prefix k = take 8 api_key \<and> status k = ACTIVE) (api_keys d))"
  shows "verify_and_update_key H now api_key d = (Inl MultipleResultsFound, d)"
proof -
  from assms have "scalar_one_or_none
      (filter (\<lambda>k. key_prefix k = take 8 api_key \<and> status k = ACTIVE) (api_keys d)) =
      Inl MultipleResultsFound"
    by (simp add: scalar_one_or_none_Inl)
  then show ?thesis by (simp add: verify_and_update_key_def Let_def)
qed

text \<open>
  Issuing a key and verifying it at once succeeds, and returns the row just stored, when
  no active row already has the prefix of the new key.
\<close>

lemma create_then_verify_unique_prefix:
  assumes "filter (\<lambda>k. key_prefix k = take 8 api_key \<and> status k = ACTIVE) (api_keys d) = []"
    and "create_api_key H api_key now uid nm d = ((db_key, s), d')"
  shows "fst (verify_and_update_key H t s d') = Inr (Some (db_key\<lparr>last_used_at := Some t\<rparr>)) \<and>
         APIKey.id_pk (db_key\<lparr>last_used_at := Some t\<rparr>) = APIKey.id_pk db_key"
proof -
  from assms(2) have s: "s = api_key" and d': "api_keys d' = api_keys d @ [db_key]"
    and k: "key_prefix db_key = take 8 api_key" "status db_key = ACTIVE"
      "key_hash db_key = get_api_key_hash H api_key"
    by (auto simp: create_api_key_eq get_api_key_hash_def)
  have "filter (\<lambda>k. key_prefix k = take 8 api_key \<and> status k = ACTIVE) (api_keys d') = [db_key]"
    using assms(1) k by (simp add: d')
  then show ?thesis
    using k by (simp add: verify_and_update_key_def verify_api_key_def s Let_def)
qed

text \<open>
  Claim C1. Issuing a key and verifying it at once does not always succeed: when an
  active key with the same first 8 characters is already stored, the lookup by prefix
  finds two rows and \<^verbatim>\<open>scalar_one_or_none\<close> raises \<^verbatim>\<open>MultipleResultsFound\<close>. Here
  \<open>key_a\<close> is issued, then \<open>key_b\<close>, and \<open>key_b\<close> is verified at once, for any digest.
\<close>

theorem issue_then_verify_shared_prefix:
  "fst (verify_and_update_key H 7 (snd (fst (create_api_key H key_b 6 42 ''deploy''
          (snd (create_api_key H key_a 5 42 ''ci-bot'' empty_db)))))
        (snd (create_api_key H key_b 6 42 ''deploy''
          (snd (create_api_key H key_a 5 42 ''ci-bot'' empty_db))))) =
     Inl MultipleResultsFound"
  by (simp add: create_api_key_eq empty_db_def verify_and_update_key_ambiguous prefix_a prefix_b)

text \<open>
  Claim C2. With two active keys whose raw keys have the same first 8 characters,
  verification resolves neither: for each of the two raw keys the lookup by prefix finds
  both rows, \<^verbatim>\<open>scalar_one_or_none\<close> raises \<^verbatim>\<open>MultipleResultsFound\<close> before any fingerprint
  is compared, and the database is left as it was. This holds for any digest.
\<close>

theorem verify_shared_prefix_resolves_neither:
  "verify_and_update_key H 8 key_a
       (run H [CreateKey key_a 5 42 ''ci-bot'', CreateKey key_b 6 7 ''deploy''] empty_db) =
     (Inl MultipleResultsFound,
      run H [CreateKey key_a 5 42 ''ci-bot'', CreateKey key_b 6 7 ''deploy''] empty_db) \<and>
   verify_and_update_key H 8 key_b
       (run H [CreateKey key_a 5 42 ''ci-bot'', CreateKey key_b 6 7 ''deploy''] empty_db) =
     (Inl MultipleResultsFound,
      run H [CreateKey key_a 5 42 ''ci-bot'', CreateKey key_b 6 7 ''deploy''] empty_db)"
  by (simp add: run_def create_api_key_eq empty_db_def verify_and_update_key_ambiguous
      prefix_a prefix_b)

lemma db_shared_eq: "db_shared H =
  \<lparr>api_keys =
     [\<lparr>APIKey.id_pk = 1, key_prefix = ''Zq3vK8pL'', key_hash = H key_a, name = ''ci-bot'',
       status = ACTIVE, expires_at = None, last_used_at = None, revoked_at = None,
       user_id = 42, APIKey.created_at = 5\<rparr>,
      \<lparr>APIKey.id_pk = 2, key_prefix = ''Zq3vK8pL'', key_hash = H key_b, name = ''deploy'',
       status = ACTIVE, expires_at = None, last_used_at = None, revoked_at = None,
       user_id = 42, APIKey.created_at = 6\<rparr>,
      \<lparr>APIKey.id_pk = 3, key_prefix = ''Zq3vK8pL'', key_hash = H key_d, name = ''laptop'',
       status = ACTIVE, expires_at = None, last_used_at = None, revoked_at = None,
       user_id = 7, APIKey.created_at = 7\<rparr>],
   api_key_usage = []\<rparr>"
  by (simp add: db_shared_def run_def empty_db_def create_api_key_eq next_id_def
      prefix_a prefix_b prefix_d)

lemma revoke_db_shared: "revoke_api_key 8 1 42 (db_shared H) =
  (Inr (Some \<lparr>APIKey.id_pk = 1, key_prefix = ''Zq3vK8pL'', key_hash = H key_a, name = ''ci-bot'',
       status = REVOKED, expires_at = None, last_used_at = None, revoked_at = Some 8,
       user_id = 42, APIKey.created_at = 5\<rparr>),
   \<lparr>api_keys =
     [\<lparr>APIKey.id_pk = 1, key_prefix = ''Zq3vK8pL'', key_hash = H key_a, name = ''ci-bot'',
       status = REVOKED, expires_at = None, last_used_at = None, revoked_at = Some 8,
       user_id = 42, APIKey.created_at = 5\<rparr>,
      \<lparr>APIKey.id_pk = 2, key_prefix = ''Zq3vK8pL'', key_hash = H key_b, name = ''deploy'',
       status = ACTIVE, expires_at = None, last_used_at = None, revoked_at = None,
       user_id = 42, APIKey.created_at = 6\<rparr>,
      \<lparr>APIKey.id_pk = 3, key_prefix = ''Zq3vK8pL'', key_hash = H key_d, name = ''laptop'',
       status = ACTIVE, expires_at = None, last_used_at = None, revoked_at = None,
       user_id = 7, APIKey.created_at = 7\<rparr>],
    api_key_usage = []\<rparr>)"
  by (simp add: revoke_api_key_def db_shared_eq update_api_key_def Let_def)

text \<open>
  Claim C3. A revoked key does not always fail verification with the answer that the
  caller turns into 401. Three keys with the same first 8 characters are issued and the
  first is revoked: \<^verbatim>\<open>revoke_api_key\<close> succeeds, and the row it returns is that of the
  key, revoked and with the revocation time set. A \<^verbatim>\<open>verify_and_update_key\<close> with the
  raw key of the revoked row then finds the two other rows, which are active and have
  its prefix, and \<^verbatim>\<open>scalar_one_or_none\<close> raises \<^verbatim>\<open>MultipleResultsFound\<close>: the call
  returns neither a key nor \<^verbatim>\<open>None\<close>, and the database is left as it was. This holds
  for any digest.
\<close>

theorem revoked_key_verify_shared_prefix:
  "(\<exists>k. fst (revoke_api_key 8 1 42 (db_shared H)) = Inr (Some k) \<and>
        APIKey.id_pk k = 1 \<and> key_hash k = get_api_key_hash H key_a \<and>
        status k = REVOKED \<and> revoked_at k = Some 8 \<and>
        k \<in> set (api_keys (snd (revoke_api_key 8 1 42 (db_shared H))))) \<and>
   verify_and_update_key H 9 key_a (snd (revoke_api_key 8 1 42 (db_shared H))) =
     (Inl MultipleResultsFound, snd (revoke_api_key 8 1 42 (db_shared H)))"
  by (simp add: revoke_db_shared get_api_key_hash_def verify_and_update_key_ambiguous prefix_a)

section \<open>What is stored of the raw key\<close>

text \<open>
  Claim C6. With a raw key of 43 characters (\<^verbatim>\<open>token_urlsafe(32)\<close>) and a digest of 64
  characters (a SHA-256 hex digest), \<^verbatim>\<open>create_api_key\<close> appends exactly one row, whose
  columns are the ones written out below: the hash column is the digest and the prefix
  column the first 8 characters, neither of which is the raw key, and the only other text
  column is the name, which is the caller's own label. The raw key is the second component
  of the result.
\<close>

theorem create_api_key_stores_no_secret:
  assumes "length api_key = 43" and "\<forall>s. length (H s) = 64"
  shows "\<exists>db_key. create_api_key H api_key now uid nm d =
             ((db_key, api_key), d\<lparr>api_keys := api_keys d @ [db_key]\<rparr>) \<and>
           db_key = \<lparr>APIKey.id_pk = next_id (map APIKey.id_pk (api_keys d)),
                     key_prefix = take 8 api_key, key_hash = H api_key, name = nm,
                     status = ACTIVE, expires_at = None, last_used_at = None,
                     revoked_at = None, user_id = uid, APIKey.created_at = now\<rparr> \<and>
           key_hash db_key \<noteq> api_key \<and> key_prefix db_key \<noteq> api_key \<and>
           length (key_hash db_key) = 64 \<and> length (key_prefix db_key) = 8 \<and>
           (name db_key = api_key \<longleftrightarrow> nm = api_key)"
proof -
  have "H api_key \<noteq> api_key"
  proof
    assume "H api_key = api_key"
    then have "length (H api_key) = length api_key" by simp
    with assms show False by simp
  qed
  moreover have "take 8 api_key \<noteq> api_key"
  proof
    assume "take 8 api_key = api_key"
    then have "length (take 8 api_key) = length api_key" by simp
    with assms(1) show False by simp
  qed
  moreover have "length (take 8 api_key) = 8" using assms(1) by simp
  ultimately show ?thesis using assms(2) by (simp add: create_api_key_eq)
qed

theorem create_api_key_stores_no_secret_witness:
  "\<exists>db_key. create_api_key digest64 key_a 5 42 ''ci-bot'' empty_db =
       ((db_key, key_a), empty_db\<lparr>api_keys := api_keys empty_db @ [db_key]\<rparr>) \<and>
     key_hash db_key = digest64 key_a \<and> key_prefix db_key = ''Zq3vK8pL'' \<and>
     key_hash db_key \<noteq> key_a \<and> key_prefix db_key \<noteq> key_a \<and> name db_key \<noteq> key_a"
proof -
  have l: "length key_a = 43" by (simp add: key_a_def)
  have h: "\<forall>s. length (digest64 s) = 64" by (simp add: digest64_length)
  have n: "''ci-bot'' \<noteq> key_a" by (simp add: key_a_def)
  from create_api_key_stores_no_secret [OF l h, of 5 42 "''ci-bot''" empty_db] n
  show ?thesis by (auto simp: prefix_a)
qed

section \<open>Listing the keys of an owner\<close>

lemma db_two_eq: "db_two =
  \<lparr>api_keys =
     [\<lparr>APIKey.id_pk = 1, key_prefix = ''Zq3vK8pL'', key_hash = digest64 key_a, name = ''ci-bot'',
       status = ACTIVE, expires_at = None, last_used_at = None, revoked_at = None,
       user_id = 42, APIKey.created_at = 5\<rparr>,
      \<lparr>APIKey.id_pk = 2, key_prefix = ''h7Gt2RfD'', key_hash = digest64 key_c, name = ''laptop'',
       status = ACTIVE, expires_at = None, last_used_at = None, revoked_at = None,
       user_id = 42, APIKey.created_at = 6\<rparr>],
   api_key_usage = []\<rparr>"
  by (simp add: db_two_def run_def empty_db_def create_api_key_eq next_id_def prefix_a prefix_c)

text \<open>
  Claim C7, as the code has it. Whatever order the store returns rows in (\<open>ord\<close> only
  rearranges them), \<^verbatim>\<open>get_user_api_keys\<close> returns exactly the owner's rows that have no
  revocation time, each as often as the table holds it, and leaves the database
  unchanged. The code asks for no order, so the order of the result is the store's.
\<close>

theorem get_user_api_keys_unordered:
  assumes "\<forall>rows. mset (ord rows) = mset rows"
  shows "mset (fst (get_user_api_keys ord uid d)) =
           mset (filter (\<lambda>k. user_id k = uid \<and> revoked_at k = None) (api_keys d)) \<and>
         set (fst (get_user_api_keys ord uid d)) =
           {k. k \<in> set (api_keys d) \<and> user_id k = uid \<and> revoked_at k = None} \<and>
         length (fst (get_user_api_keys ord uid d)) =
           length (filter (\<lambda>k. user_id k = uid \<and> revoked_at k = None) (api_keys d)) \<and>
         snd (get_user_api_keys ord uid d) = d"
proof -
  let ?q = "filter (\<lambda>k. user_id k = uid \<and> revoked_at k = None) (api_keys d)"
  from assms have m: "mset (ord ?q) = mset ?q" by blast
  have "set (ord ?q) = set ?q" by (rule mset_eq_setD [OF m])
  moreover have "length (ord ?q) = length ?q" by (rule mset_eq_length [OF m])
  ultimately show ?thesis using m by (auto simp: get_user_api_keys_def)
qed

theorem get_user_api_keys_unordered_witness:
  "mset (fst (get_user_api_keys rev 42 db_two)) = mset (api_keys db_two) \<and>
   length (fst (get_user_api_keys rev 42 db_two)) = 2 \<and>
   snd (get_user_api_keys rev 42 db_two) = db_two"
proof -
  have "\<forall>rows :: APIKey list. mset (rev rows) = mset rows" by simp
  from get_user_api_keys_unordered [OF this, of 42 db_two]
  show ?thesis by (simp add: db_two_eq)
qed

text \<open>
  The order is not determined by the code, and it need not be by creation time, most
  recent first: for two keys issued to one owner at times 5 and 6, a store that returns
  rows as they were inserted lists the older key first, and a store that returns them the
  other way round lists the newer key first.
\<close>

theorem get_user_api_keys_order_counterexample:
  "map APIKey.created_at (fst (get_user_api_keys (\<lambda>rows. rows) 42 db_two)) = [5, 6] \<and>
   map APIKey.created_at (fst (get_user_api_keys rev 42 db_two)) = [6, 5] \<and>
   \<not> sorted_wrt (\<lambda>a b. APIKey.created_at b \<le> APIKey.created_at a)
       (fst (get_user_api_keys (\<lambda>rows. rows) 42 db_two))"
  by (simp add: db_two_eq get_user_api_keys_def)

section \<open>Usage statistics\<close>






















end
